theory Spec2Isabelle
  imports Main
begin

section \<open>The friendship request router\<close>

text \<open>
  A shallow embedding of \<^verbatim>\<open>src/server/api/routers/friendship-request-router.ts\<close>:
  the three tRPC mutations \<^verbatim>\<open>send\<close>, \<^verbatim>\<open>accept\<close> and \<^verbatim>\<open>decline\<close>, their two
  middlewares, and the Kysely statements they issue against the tables
  \<^verbatim>\<open>users\<close> and \<^verbatim>\<open>friendships\<close>. The database is explicit state: each
  procedure takes the database and returns its result together with the
  database it leaves behind.
\<close>

subsection \<open>Rows, tables, errors\<close>

text \<open>
  The values of \<^verbatim>\<open>FriendshipStatusSchema\<close> that the router uses.
\<close>

datatype FriendshipStatus = Requested | Accepted | Declined

text \<open>
  A row of \<^verbatim>\<open>friendships\<close>. The column \<^verbatim>\<open>id\<close> is written \<open>id'\<close>, since
  \<open>id\<close> is the identity function of HOL.
\<close>

record friendship =
  id' :: nat
  userId :: nat
  friendUserId :: nat
  status :: FriendshipStatus

text \<open>
  Modelled from the spec: the schema of the two tables, which the router
  imports and does not declare. Of \<^verbatim>\<open>users\<close> only the column \<^verbatim>\<open>id\<close> is read.
  The \<^verbatim>\<open>id\<close> of a friendship is "generated on creation": \<open>nextId\<close> is the
  counter it is taken from. Whether the table rejects a second row for the
  same pair \<^verbatim>\<open>(userId, friendUserId)\<close> is not visible in the router (the comment
  in \<^verbatim>\<open>send\<close> reports that inserting one used to raise an error), so it is the
  parameter \<open>uniqueDirection\<close>, which no statement changes.
\<close>

record database =
  users :: "nat list"
  friendships :: "friendship list"
  nextId :: nat
  uniqueDirection :: bool

text \<open>
  What a call can throw: the \<^verbatim>\<open>TRPCError\<close> of a middleware, whose code is
  \<^verbatim>\<open>BAD_REQUEST\<close> in both (the spec calls the one of \<^verbatim>\<open>canSendFriendshipRequest\<close>
  InvalidTarget and the one of \<^verbatim>\<open>canAnswerFriendshipRequest\<close> NotRequested), and the
  error of the store for an insert that the table rejects.
\<close>

datatype trpc_code = BAD_REQUEST

datatype error = TRPCError trpc_code | ConstraintViolation

type_synonym 'a outcome = "(error + 'a) \<times> database"

subsection \<open>The statements of the query builder\<close>

definition executeTakeFirst :: "'a list \<Rightarrow> 'a option" where
  "executeTakeFirst rows = (case rows of [] \<Rightarrow> None | r # _ \<Rightarrow> Some r)"

definition executeTakeFirstOrThrow :: "error \<Rightarrow> 'a list \<Rightarrow> error + 'a" where
  "executeTakeFirstOrThrow e rows = (case rows of [] \<Rightarrow> Inl e | r # _ \<Rightarrow> Inr r)"

text \<open>\<^verbatim>\<open>updateTable('friendships').set({ status }).where(...)\<close>: every row that
  matches gets the status, in place.\<close>

definition updateTable :: "(friendship \<Rightarrow> bool) \<Rightarrow> FriendshipStatus \<Rightarrow> database \<Rightarrow> database" where
  "updateTable P s d =
     d\<lparr>friendships := map (\<lambda>r. if P r then r\<lparr>status := s\<rparr> else r) (friendships d)\<rparr>"

text \<open>\<^verbatim>\<open>insertInto('friendships').values(...)\<close>: a new row with a generated
  \<^verbatim>\<open>id\<close>, rejected when the table enforces one row per direction and has one.\<close>

definition insertInto :: "nat \<Rightarrow> nat \<Rightarrow> FriendshipStatus \<Rightarrow> database \<Rightarrow> unit outcome" where
  "insertInto u f s d =
     (if uniqueDirection d \<and> (\<exists>r \<in> set (friendships d). userId r = u \<and> friendUserId r = f)
      then (Inl ConstraintViolation, d)
      else (Inr (),
            d\<lparr>friendships := friendships d @
                 [\<lparr>id' = nextId d, userId = u, friendUserId = f, status = s\<rparr>],
              nextId := Suc (nextId d)\<rparr>))"

text \<open>\<^verbatim>\<open>db.transaction().execute(...)\<close>: the writes of a body that throws are
  rolled back.\<close>

definition transaction :: "(database \<Rightarrow> 'a outcome) \<Rightarrow> database \<Rightarrow> 'a outcome" where
  "transaction body d =
     (case body d of (Inl e, _) \<Rightarrow> (Inl e, d) | (Inr v, d') \<Rightarrow> (Inr v, d'))"

subsection \<open>The middlewares\<close>

text \<open>
  Both middlewares are piped after \<^verbatim>\<open>authGuard\<close>, so \<open>me\<close> is
  \<^verbatim>\<open>ctx.session.userId\<close> of an authenticated caller and \<open>input\<close> is the parsed
  \<^verbatim>\<open>friendUserId\<close>. \<open>nxt\<close> is the rest of the procedure (\<^verbatim>\<open>next({ ctx })\<close>).
\<close>

definition canSendFriendshipRequest ::
  "nat \<Rightarrow> nat \<Rightarrow> (database \<Rightarrow> 'a outcome) \<Rightarrow> database \<Rightarrow> 'a outcome" where
  "canSendFriendshipRequest me input nxt d =
     (case executeTakeFirstOrThrow (TRPCError BAD_REQUEST)
             (take 1 (filter (\<lambda>u. u = input) (users d))) of
        Inl e \<Rightarrow> (Inl e, d)
      | Inr _ \<Rightarrow> nxt d)"

definition canAnswerFriendshipRequest ::
  "nat \<Rightarrow> nat \<Rightarrow> (database \<Rightarrow> 'a outcome) \<Rightarrow> database \<Rightarrow> 'a outcome" where
  "canAnswerFriendshipRequest me input nxt d =
     (case executeTakeFirstOrThrow (TRPCError BAD_REQUEST)
             (take 1 (filter (\<lambda>r. userId r = input \<and> friendUserId r = me \<and> status r = Requested)
                        (friendships d))) of
        Inl e \<Rightarrow> (Inl e, d)
      | Inr _ \<Rightarrow> nxt d)"

subsection \<open>The mutations\<close>

definition send_mutation :: "nat \<Rightarrow> nat \<Rightarrow> database \<Rightarrow> unit outcome" where
  "send_mutation me input d =
     (case executeTakeFirst
             (filter (\<lambda>r. userId r = me \<and> friendUserId r = input \<and> status r = Declined)
                (friendships d)) of
        Some existingRequest \<Rightarrow>
          (Inr (), updateTable (\<lambda>r. id' r = id' existingRequest) Requested d)
      | None \<Rightarrow> insertInto me input Requested d)"

definition accept_body :: "nat \<Rightarrow> nat \<Rightarrow> database \<Rightarrow> unit outcome" where
  "accept_body me input t =
     (let t1 = updateTable
                 (\<lambda>r. userId r = input \<and> friendUserId r = me \<and> status r = Requested)
                 Accepted t
      in case executeTakeFirst
                (filter (\<lambda>r. userId r = me \<and> friendUserId r = input \<and> status r = Requested)
                   (friendships t1)) of
           None \<Rightarrow> insertInto me input Accepted t1
         | Some existingOppositeRequest \<Rightarrow>
             (Inr (), updateTable (\<lambda>r. id' r = id' existingOppositeRequest) Accepted t1))"

definition accept_mutation :: "nat \<Rightarrow> nat \<Rightarrow> database \<Rightarrow> unit outcome" where
  "accept_mutation me input = transaction (accept_body me input)"

definition decline_body :: "nat \<Rightarrow> nat \<Rightarrow> database \<Rightarrow> unit outcome" where
  "decline_body me input t =
     (Inr (), updateTable
                (\<lambda>r. userId r = input \<and> friendUserId r = me \<and> status r = Requested)
                Declined t)"

definition decline_mutation :: "nat \<Rightarrow> nat \<Rightarrow> database \<Rightarrow> unit outcome" where
  "decline_mutation me input = transaction (decline_body me input)"

subsection \<open>The procedures of the router\<close>

definition send :: "nat \<Rightarrow> nat \<Rightarrow> database \<Rightarrow> unit outcome" where
  "send me input = canSendFriendshipRequest me input (send_mutation me input)"

definition accept :: "nat \<Rightarrow> nat \<Rightarrow> database \<Rightarrow> unit outcome" where
  "accept me input = canAnswerFriendshipRequest me input (accept_mutation me input)"

definition decline :: "nat \<Rightarrow> nat \<Rightarrow> database \<Rightarrow> unit outcome" where
  "decline me input = canAnswerFriendshipRequest me input (decline_mutation me input)"

text \<open>
  A request names the procedure, the caller and the input. Requests are served
  one after the other; a request that fails leaves the database to the next.
\<close>

datatype request = Send nat nat | Accept nat nat | Decline nat nat

fun serve :: "request \<Rightarrow> database \<Rightarrow> unit outcome" where
  "serve (Send me input) d = send me input d"
| "serve (Accept me input) d = accept me input d"
| "serve (Decline me input) d = decline me input d"

fun serve_all :: "request list \<Rightarrow> database \<Rightarrow> (error + unit) list \<times> database" where
  "serve_all [] d = ([], d)"
| "serve_all (q # qs) d =
     (case serve q d of (res, d') \<Rightarrow>
        (case serve_all qs d' of (ress, d'') \<Rightarrow> (res # ress, d'')))"

subsection \<open>Vocabulary of the properties\<close>

text \<open>A row is a record of the direction \<open>(a, b)\<close>.\<close>

definition directed :: "nat \<Rightarrow> nat \<Rightarrow> friendship \<Rightarrow> bool" where
  "directed a b r = (userId r = a \<and> friendUserId r = b)"

text \<open>The primary key: the ids of the rows differ, and the counter is beyond them.\<close>

definition wf_ids :: "database \<Rightarrow> bool" where
  "wf_ids d = (distinct (map id' (friendships d)) \<and>
               (\<forall>r \<in> set (friendships d). id' r < nextId d))"

text \<open>The changes of status that the lifecycle of a record allows.\<close>

definition transition :: "FriendshipStatus \<Rightarrow> FriendshipStatus \<Rightarrow> bool" where
  "transition s s' =
     (s = s' \<or> (s = Requested \<and> (s' = Accepted \<or> s' = Declined)) \<or>
      (s = Declined \<and> s' = Requested))"

text \<open>
  What may become of a table: every row keeps its place, its id and its two
  users, its status changes by an allowed transition or not at all, and rows
  are only ever appended.
\<close>

definition evolves :: "friendship list \<Rightarrow> friendship list \<Rightarrow> bool" where
  "evolves xs ys =
     (length xs \<le> length ys \<and>
      (\<forall>i < length xs.
         id' (ys ! i) = id' (xs ! i) \<and> userId (ys ! i) = userId (xs ! i) \<and>
         friendUserId (ys ! i) = friendUserId (xs ! i) \<and>
         transition (status (xs ! i)) (status (ys ! i))))"

text \<open>Stores that the properties are tried on.\<close>

definition sample_empty :: "bool \<Rightarrow> database" where
  "sample_empty u = \<lparr>users = [1, 2, 3], friendships = [], nextId = 0, uniqueDirection = u\<rparr>"

definition sample_friends :: "bool \<Rightarrow> database" where
  "sample_friends u =
     \<lparr>users = [1, 2, 3],
      friendships = [\<lparr>id' = 0, userId = 1, friendUserId = 2, status = Accepted\<rparr>,
                     \<lparr>id' = 1, userId = 2, friendUserId = 1, status = Accepted\<rparr>],
      nextId = 2, uniqueDirection = u\<rparr>"

definition sample_pending :: "bool \<Rightarrow> database" where
  "sample_pending u =
     \<lparr>users = [1, 2, 3],
      friendships = [\<lparr>id' = 0, userId = 1, friendUserId = 2, status = Requested\<rparr>,
                     \<lparr>id' = 1, userId = 2, friendUserId = 1, status = Declined\<rparr>,
                     \<lparr>id' = 2, userId = 3, friendUserId = 1, status = Requested\<rparr>],
      nextId = 3, uniqueDirection = u\<rparr>"

section \<open>Auxiliary facts\<close>

lemma executeTakeFirst_filter: "executeTakeFirst (filter P xs) = find P xs"
  by (induction xs) (auto simp: executeTakeFirst_def)

lemma orThrow_take1:
  "executeTakeFirstOrThrow e (take (Suc 0) xs) = (case xs of [] \<Rightarrow> Inl e | x # _ \<Rightarrow> Inr x)"
  by (cases xs) (auto simp: executeTakeFirstOrThrow_def)

lemma find_append_skip:
  "(\<And>x. x \<in> set xs \<Longrightarrow> \<not> P x) \<Longrightarrow> find P (xs @ ys) = find P ys"
  by (induction xs) auto

lemma map_status_id:
  "(\<And>r. r \<in> set xs \<Longrightarrow> \<not> P r) \<Longrightarrow> map (\<lambda>r. if P r then r\<lparr>status := s\<rparr> else r) xs = xs"
  by (induction xs) auto

lemma filter_map_status:
  "filter (directed a b) (map (\<lambda>r. if P r then r\<lparr>status := s\<rparr> else r) xs) =
   map (\<lambda>r. if P r then r\<lparr>status := s\<rparr> else r) (filter (directed a b) xs)"
  by (induction xs) (auto simp: directed_def)

lemma map_status_cong:
  "(\<And>x. x \<in> set xs \<Longrightarrow> P x = Q x) \<Longrightarrow>
   map (\<lambda>r. if P r then r\<lparr>status := s\<rparr> else r) xs =
   map (\<lambda>r. if Q r then r\<lparr>status := s\<rparr> else r) xs"
  by (induction xs) auto

lemma friendships_upd: "friendships (d\<lparr>friendships := xs\<rparr>) = xs"
  by simp

lemma map_id_status:
  "map id' (map (\<lambda>r. if P r then r\<lparr>status := s\<rparr> else r) xs) = map id' xs"
  by (induction xs) auto

subsection \<open>When the middlewares let a call through\<close>

lemma canSend_pass:
  assumes "input \<in> set (users d)"
  shows "canSendFriendshipRequest me input nxt d = nxt d"
proof -
  from assms have "filter (\<lambda>u. u = input) (users d) \<noteq> []"
    by (auto simp: filter_empty_conv)
  then show ?thesis
    by (auto simp: canSendFriendshipRequest_def orThrow_take1 split: list.splits)
qed

lemma canAnswer_pass:
  assumes "r \<in> set (friendships d)" "directed input me r" "status r = Requested"
  shows "canAnswerFriendshipRequest me input nxt d = nxt d"
proof -
  from assms have
    "filter (\<lambda>r. userId r = input \<and> friendUserId r = me \<and> status r = Requested)
       (friendships d) \<noteq> []"
    by (auto simp: filter_empty_conv directed_def)
  then show ?thesis
    by (auto simp: canAnswerFriendshipRequest_def orThrow_take1 split: list.splits)
qed

subsection \<open>The mutations, statement by statement\<close>

lemma insertInto_fresh:
  assumes "\<And>r. r \<in> set (friendships d) \<Longrightarrow> \<not> directed u f r"
  shows "insertInto u f s d =
     (Inr (), d\<lparr>friendships := friendships d @
                  [\<lparr>id' = nextId d, userId = u, friendUserId = f, status = s\<rparr>],
               nextId := Suc (nextId d)\<rparr>)"
  using assms by (auto simp: insertInto_def directed_def)

lemma send_mutation_find:
  "send_mutation me input d =
     (case find (\<lambda>r. userId r = me \<and> friendUserId r = input \<and> status r = Declined)
             (friendships d) of
        Some existingRequest \<Rightarrow>
          (Inr (), updateTable (\<lambda>r. id' r = id' existingRequest) Requested d)
      | None \<Rightarrow> insertInto me input Requested d)"
  by (simp only: send_mutation_def executeTakeFirst_filter)

lemma send_mutation_fresh:
  assumes "\<And>r. r \<in> set (friendships d) \<Longrightarrow> \<not> directed A B r"
  shows "send_mutation A B d =
     (Inr (), d\<lparr>friendships := friendships d @
                  [\<lparr>id' = nextId d, userId = A, friendUserId = B, status = Requested\<rparr>],
               nextId := Suc (nextId d)\<rparr>)"
proof -
  have "find (\<lambda>r. userId r = A \<and> friendUserId r = B \<and> status r = Declined) (friendships d) = None"
    using assms by (auto simp: find_None_iff directed_def)
  then show ?thesis
    by (simp add: send_mutation_find insertInto_fresh [OF assms])
qed

lemma accept_body_find:
  "accept_body me input t =
     (let t1 = updateTable
                 (\<lambda>r. userId r = input \<and> friendUserId r = me \<and> status r = Requested)
                 Accepted t
      in case find (\<lambda>r. userId r = me \<and> friendUserId r = input \<and> status r = Requested)
                (friendships t1) of
           None \<Rightarrow> insertInto me input Accepted t1
         | Some existingOppositeRequest \<Rightarrow>
             (Inr (), updateTable (\<lambda>r. id' r = id' existingOppositeRequest) Accepted t1))"
  by (simp only: accept_body_def executeTakeFirst_filter)

lemma transaction_ok: "body d = (Inr v, d') \<Longrightarrow> transaction body d = (Inr v, d')"
  by (simp add: transaction_def)

lemma filter_directed_single:
  assumes "filter (directed a b) xs = [r]" "x \<in> set xs"
  shows "directed a b x \<longleftrightarrow> x = r"
proof -
  have "set (filter (directed a b) xs) = {r}" using assms(1) by simp
  then show ?thesis using assms(2) by auto
qed

subsection \<open>What a call can do to the table\<close>

lemma updateTable_sel [simp]:
  "friendships (updateTable P s d) = map (\<lambda>r. if P r then r\<lparr>status := s\<rparr> else r) (friendships d)"
  "users (updateTable P s d) = users d"
  "nextId (updateTable P s d) = nextId d"
  "uniqueDirection (updateTable P s d) = uniqueDirection d"
  by (simp_all add: updateTable_def)

lemma canSend_cases:
  "canSendFriendshipRequest me input nxt d = (Inl (TRPCError BAD_REQUEST), d) \<or>
   canSendFriendshipRequest me input nxt d = nxt d"
  by (cases "filter (\<lambda>u. u = input) (users d)")
     (simp_all add: canSendFriendshipRequest_def executeTakeFirstOrThrow_def)

lemma canAnswer_cases:
  "canAnswerFriendshipRequest me input nxt d = (Inl (TRPCError BAD_REQUEST), d) \<or>
   canAnswerFriendshipRequest me input nxt d = nxt d"
  by (cases "filter (\<lambda>r. userId r = input \<and> friendUserId r = me \<and> status r = Requested)
               (friendships d)")
     (simp_all add: canAnswerFriendshipRequest_def executeTakeFirstOrThrow_def)

lemma insertInto_cases:
  "insertInto u f s d = (Inl ConstraintViolation, d) \<or>
   insertInto u f s d =
     (Inr (), d\<lparr>friendships := friendships d @
                  [\<lparr>id' = nextId d, userId = u, friendUserId = f, status = s\<rparr>],
               nextId := Suc (nextId d)\<rparr>)"
  by (simp add: insertInto_def)

text \<open>The table after a call: the rows stay where they are, some get a status
  written, and at most one row is appended.\<close>

lemma send_cases:
  "snd (send A B d) = d \<or>
   (\<exists>e \<in> set (friendships d). status e = Declined \<and>
      snd (send A B d) = updateTable (\<lambda>r. id' r = id' e) Requested d) \<or>
   snd (send A B d) =
      d\<lparr>friendships := friendships d @
           [\<lparr>id' = nextId d, userId = A, friendUserId = B, status = Requested\<rparr>],
        nextId := Suc (nextId d)\<rparr>"
proof -
  let ?P = "\<lambda>r. userId r = A \<and> friendUserId r = B \<and> status r = Declined"
  consider "send A B d = (Inl (TRPCError BAD_REQUEST), d)" | "send A B d = send_mutation A B d"
    using canSend_cases [of A B "send_mutation A B" d] by (auto simp: send_def)
  then show ?thesis
  proof cases
    case 1
    then show ?thesis by simp
  next
    case 2
    show ?thesis
    proof (cases "find ?P (friendships d)")
      case None
      then have "send A B d = insertInto A B Requested d"
        using 2 by (simp add: send_mutation_find)
      then show ?thesis
        using insertInto_cases [of A B Requested d] by auto
    next
      case (Some e)
      then have "e \<in> set (friendships d)" "status e = Declined"
        by (auto simp: find_Some_iff)
      moreover have "snd (send A B d) = updateTable (\<lambda>r. id' r = id' e) Requested d"
        using 2 Some by (simp add: send_mutation_find)
      ultimately show ?thesis by blast
    qed
  qed
qed

lemma decline_cases:
  "snd (decline B A d) = d \<or>
   snd (decline B A d) =
     updateTable (\<lambda>r. userId r = A \<and> friendUserId r = B \<and> status r = Requested) Declined d"
  using canAnswer_cases [of B A "decline_mutation B A" d]
  by (auto simp: decline_def decline_mutation_def transaction_def decline_body_def)

lemma accept_cases:
  "snd (accept B A d) = d \<or>
   (\<exists>e \<in> set (friendships
               (updateTable (\<lambda>r. userId r = A \<and> friendUserId r = B \<and> status r = Requested)
                  Accepted d)).
      status e = Requested \<and>
      snd (accept B A d) =
        updateTable (\<lambda>r. id' r = id' e) Accepted
          (updateTable (\<lambda>r. userId r = A \<and> friendUserId r = B \<and> status r = Requested)
             Accepted d)) \<or>
   snd (accept B A d) =
     d\<lparr>friendships :=
          map (\<lambda>r. if userId r = A \<and> friendUserId r = B \<and> status r = Requested
                    then r\<lparr>status := Accepted\<rparr> else r) (friendships d) @
          [\<lparr>id' = nextId d, userId = B, friendUserId = A, status = Accepted\<rparr>],
        nextId := Suc (nextId d)\<rparr>"
proof -
  let ?t1 = "updateTable (\<lambda>r. userId r = A \<and> friendUserId r = B \<and> status r = Requested)
               Accepted d"
  let ?Q = "\<lambda>r. userId r = B \<and> friendUserId r = A \<and> status r = Requested"
  consider "accept B A d = (Inl (TRPCError BAD_REQUEST), d)"
    | "accept B A d = transaction (accept_body B A) d"
    using canAnswer_cases [of B A "accept_mutation B A" d]
    by (auto simp: accept_def accept_mutation_def)
  then show ?thesis
  proof cases
    case 1
    then show ?thesis by simp
  next
    case 2
    show ?thesis
    proof (cases "find ?Q (friendships ?t1)")
      case None
      then have body: "accept_body B A d = insertInto B A Accepted ?t1"
        by (simp only: accept_body_find Let_def option.case)
      from insertInto_cases [of B A Accepted ?t1] show ?thesis
      proof
        assume "insertInto B A Accepted ?t1 = (Inl ConstraintViolation, ?t1)"
        then have "snd (accept B A d) = d"
          using 2 body by (simp add: transaction_def)
        then show ?thesis ..
      next
        assume "insertInto B A Accepted ?t1 =
                  (Inr (), ?t1\<lparr>friendships := friendships ?t1 @
                       [\<lparr>id' = nextId ?t1, userId = B, friendUserId = A, status = Accepted\<rparr>],
                     nextId := Suc (nextId ?t1)\<rparr>)"
        then have "snd (accept B A d) =
                     ?t1\<lparr>friendships := friendships ?t1 @
                       [\<lparr>id' = nextId ?t1, userId = B, friendUserId = A, status = Accepted\<rparr>],
                     nextId := Suc (nextId ?t1)\<rparr>"
          using 2 body by (simp add: transaction_def)
        then show ?thesis
          by (simp add: updateTable_def)
      qed
    next
      case (Some e)
      then have e: "e \<in> set (friendships ?t1)" "status e = Requested"
        by (auto simp only: find_Some_iff nth_mem)
      have "accept_body B A d = (Inr (), updateTable (\<lambda>r. id' r = id' e) Accepted ?t1)"
        using Some by (simp only: accept_body_find Let_def option.case)
      then have "snd (accept B A d) = updateTable (\<lambda>r. id' r = id' e) Accepted ?t1"
        using 2 by (simp add: transaction_def)
      with e show ?thesis by blast
    qed
  qed
qed


subsection \<open>The primary key is kept\<close>

lemma distinct_id_eq:
  "wf_ids d \<Longrightarrow> x \<in> set (friendships d) \<Longrightarrow> y \<in> set (friendships d) \<Longrightarrow>
   id' x = id' y \<Longrightarrow> x = y"
  by (auto simp: wf_ids_def distinct_map inj_on_def)

lemma wf_ids_alt:
  "wf_ids d = (distinct (map id' (friendships d)) \<and>
               (\<forall>i \<in> set (map id' (friendships d)). i < nextId d))"
  by (simp add: wf_ids_def)

lemma wf_updateTable: "wf_ids (updateTable P s d) = wf_ids d"
  by (simp only: wf_ids_alt updateTable_sel map_id_status)

lemma wf_insert:
  "wf_ids d \<Longrightarrow>
   wf_ids (d\<lparr>friendships := friendships d @ [\<lparr>id' = nextId d, userId = u, friendUserId = f, status = s\<rparr>],
             nextId := Suc (nextId d)\<rparr>)"
  by (fastforce simp: wf_ids_def)

lemma wf_insert_upd:
  assumes "wf_ids d"
  shows "wf_ids (d\<lparr>friendships := map (\<lambda>r. if P r then r\<lparr>status := t\<rparr> else r) (friendships d) @
                      [\<lparr>id' = nextId d, userId = u, friendUserId = f, status = s\<rparr>],
                   nextId := Suc (nextId d)\<rparr>)"
proof -
  have "wf_ids (updateTable P t d)"
    using assms by (simp only: wf_updateTable)
  from wf_insert [OF this, of u f s] show ?thesis
    by (simp add: updateTable_def)
qed

lemma wf_send: "wf_ids d \<Longrightarrow> wf_ids (snd (send A B d))"
  using send_cases [of A B d] by (auto simp: wf_updateTable wf_insert)

lemma wf_decline: "wf_ids d \<Longrightarrow> wf_ids (snd (decline B A d))"
  using decline_cases [of B A d] by (auto simp: wf_updateTable)

lemma wf_accept: "wf_ids d \<Longrightarrow> wf_ids (snd (accept B A d))"
  using accept_cases [of B A d] by (auto simp only: wf_updateTable wf_insert_upd)

lemma wf_serve: "wf_ids d \<Longrightarrow> wf_ids (snd (serve q d))"
  by (cases q) (simp_all add: wf_send wf_accept wf_decline)

lemma snd_serve_all_Cons: "snd (serve_all (q # qs) d) = snd (serve_all qs (snd (serve q d)))"
  by (simp split: prod.splits)

lemma wf_serve_all: "wf_ids d \<Longrightarrow> wf_ids (snd (serve_all qs d))"
proof (induction qs arbitrary: d)
  case Nil
  then show ?case by simp
next
  case (Cons q qs)
  then show ?case
    by (simp only: snd_serve_all_Cons wf_serve)
qed


subsection \<open>Rows change by allowed transitions only\<close>

lemma evolves_map:
  assumes "\<And>x. x \<in> set xs \<Longrightarrow> \<exists>s. transition (status x) s \<and> h x = x\<lparr>status := s\<rparr>"
  shows "evolves xs (map h xs @ zs)"
proof -
  have "id' (h (xs ! i)) = id' (xs ! i) \<and> userId (h (xs ! i)) = userId (xs ! i) \<and>
        friendUserId (h (xs ! i)) = friendUserId (xs ! i) \<and>
        transition (status (xs ! i)) (status (h (xs ! i)))" if "i < length xs" for i
  proof -
    from that have "xs ! i \<in> set xs" by simp
    from assms [OF this] obtain s where
      "transition (status (xs ! i)) s" "h (xs ! i) = (xs ! i)\<lparr>status := s\<rparr>" by blast
    then show ?thesis by simp
  qed
  then show ?thesis
    by (simp add: evolves_def nth_append)
qed

lemma transition_refl: "\<exists>s. transition (status x) s \<and> x = x\<lparr>status := s\<rparr>"
  by (rule exI [of _ "status x"]) (simp add: transition_def)

lemma evolves_refl: "evolves xs xs"
proof -
  have "evolves xs (map (\<lambda>x. x) xs @ [])"
    by (rule evolves_map) (rule transition_refl)
  then show ?thesis by simp
qed

lemma evolves_updateTable:
  assumes "\<And>x. x \<in> set (friendships d) \<Longrightarrow> P x \<Longrightarrow> transition (status x) s"
  shows "evolves (friendships d)
           (map (\<lambda>r. if P r then r\<lparr>status := s\<rparr> else r) (friendships d) @ zs)"
proof (rule evolves_map)
  fix x assume "x \<in> set (friendships d)"
  with assms transition_refl [of x]
  show "\<exists>t. transition (status x) t \<and> (if P x then x\<lparr>status := s\<rparr> else x) = x\<lparr>status := t\<rparr>"
    by (cases "P x") auto
qed

lemma evolves_send:
  assumes "wf_ids d"
  shows "evolves (friendships d) (friendships (snd (send A B d)))"
proof -
  from send_cases [of A B d] consider
      "snd (send A B d) = d"
    | e where "e \<in> set (friendships d)" "status e = Declined"
        "snd (send A B d) = updateTable (\<lambda>r. id' r = id' e) Requested d"
    | "snd (send A B d) =
         d\<lparr>friendships := friendships d @
              [\<lparr>id' = nextId d, userId = A, friendUserId = B, status = Requested\<rparr>],
           nextId := Suc (nextId d)\<rparr>"
    by blast
  then show ?thesis
  proof cases
    case 1
    then show ?thesis by (simp add: evolves_refl)
  next
    case 2
    have "transition (status x) Requested" if "x \<in> set (friendships d)" "id' x = id' e" for x
    proof -
      have "x = e" using distinct_id_eq [OF assms that(1) 2(1) that(2)] .
      with 2(2) show ?thesis by (simp add: transition_def)
    qed
    then have "evolves (friendships d)
                 (map (\<lambda>r. if id' r = id' e then r\<lparr>status := Requested\<rparr> else r) (friendships d) @ [])"
      by (rule evolves_updateTable)
    with 2(3) show ?thesis by simp
  next
    case 3
    have "evolves (friendships d) (map (\<lambda>x. x) (friendships d) @
            [\<lparr>id' = nextId d, userId = A, friendUserId = B, status = Requested\<rparr>])"
      by (rule evolves_map) (rule transition_refl)
    with 3 show ?thesis by simp
  qed
qed

lemma evolves_decline: "evolves (friendships d) (friendships (snd (decline B A d)))"
proof -
  have "evolves (friendships d)
          (map (\<lambda>r. if userId r = A \<and> friendUserId r = B \<and> status r = Requested
                     then r\<lparr>status := Declined\<rparr> else r) (friendships d) @ [])"
    by (rule evolves_updateTable) (simp add: transition_def)
  with decline_cases [of B A d] show ?thesis
    by (auto simp: evolves_refl)
qed

lemma map_status_twice:
  "map (\<lambda>r. if Q r then r\<lparr>status := s\<rparr> else r) (map (\<lambda>r. if P r then r\<lparr>status := s\<rparr> else r) xs) =
   map (\<lambda>r. if P r \<or> Q r then r\<lparr>status := s\<rparr> else r) xs"
  by (induction xs) auto

lemma evolves_accept:
  assumes "wf_ids d"
  shows "evolves (friendships d) (friendships (snd (accept B A d)))"
proof -
  let ?P = "\<lambda>r. userId r = A \<and> friendUserId r = B \<and> status r = Requested"
  let ?f = "\<lambda>r. if ?P r then r\<lparr>status := Accepted\<rparr> else r"
  have first: "\<And>x. x \<in> set (friendships d) \<Longrightarrow> ?P x \<Longrightarrow> transition (status x) Accepted"
    by (simp add: transition_def)
  from accept_cases [of B A d] consider
      "snd (accept B A d) = d"
    | e where "e \<in> set (friendships (updateTable ?P Accepted d))" "status e = Requested"
        "snd (accept B A d) = updateTable (\<lambda>r. id' r = id' e) Accepted (updateTable ?P Accepted d)"
    | "snd (accept B A d) =
         d\<lparr>friendships := map ?f (friendships d) @
              [\<lparr>id' = nextId d, userId = B, friendUserId = A, status = Accepted\<rparr>],
           nextId := Suc (nextId d)\<rparr>"
    by blast
  then show ?thesis
  proof cases
    case 1
    then show ?thesis by (simp add: evolves_refl)
  next
    case 2
    from 2(1) obtain y where y: "y \<in> set (friendships d)" "e = ?f y"
      by (auto simp only: updateTable_sel set_map)
    with 2(2) have ey: "e = y"
      by (cases "?P y") auto
    have "transition (status x) Accepted"
      if "x \<in> set (friendships d)" "?P x \<or> id' x = id' e" for x
    proof (cases "?P x")
      case True
      then show ?thesis by (simp add: transition_def)
    next
      case False
      with that(2) have "id' x = id' y" using ey by simp
      then have "x = y" using distinct_id_eq [OF assms that(1) y(1)] by simp
      with ey 2(2) show ?thesis by (simp add: transition_def)
    qed
    then have "evolves (friendships d)
                 (map (\<lambda>r. if ?P r \<or> id' r = id' e then r\<lparr>status := Accepted\<rparr> else r)
                    (friendships d) @ [])"
      by (rule evolves_updateTable)
    then show ?thesis
      by (simp only: 2(3) updateTable_sel map_status_twice append_Nil2)
  next
    case 3
    have "evolves (friendships d) (map ?f (friendships d) @
            [\<lparr>id' = nextId d, userId = B, friendUserId = A, status = Accepted\<rparr>])"
      using first by (rule evolves_updateTable)
    with 3 show ?thesis by simp
  qed
qed

lemma evolves_serve: "wf_ids d \<Longrightarrow> evolves (friendships d) (friendships (snd (serve q d)))"
  by (cases q) (simp_all add: evolves_send evolves_accept evolves_decline)

lemma evolves_accepted:
  assumes "evolves xs ys" "i < length xs" "status (xs ! i) = Accepted"
  shows "i < length ys \<and> ys ! i = xs ! i"
proof -
  from assms have "i < length ys" and
    "id' (ys ! i) = id' (xs ! i)" "userId (ys ! i) = userId (xs ! i)"
    "friendUserId (ys ! i) = friendUserId (xs ! i)" "status (ys ! i) = status (xs ! i)"
    by (auto simp: evolves_def transition_def)
  then show ?thesis
    by (simp add: friendship.equality)
qed

lemma accepted_serve_all:
  "wf_ids d \<Longrightarrow> i < length (friendships d) \<Longrightarrow> status (friendships d ! i) = Accepted \<Longrightarrow>
   i < length (friendships (snd (serve_all qs d))) \<and>
   friendships (snd (serve_all qs d)) ! i = friendships d ! i"
proof (induction qs arbitrary: d)
  case Nil
  then show ?case by simp
next
  case (Cons q qs)
  let ?d = "snd (serve q d)"
  have step: "i < length (friendships ?d) \<and> friendships ?d ! i = friendships d ! i"
    using evolves_accepted [OF evolves_serve [OF Cons.prems(1)] Cons.prems(2,3)] .
  then have "status (friendships ?d ! i) = Accepted"
    using Cons.prems(3) by simp
  from Cons.IH [OF wf_serve [OF Cons.prems(1)] _ this] step show ?case
    by (simp only: snd_serve_all_Cons)
qed

lemma accept_keeps_accepted:
  assumes i: "i < length (friendships d)" and acc: "status (friendships d ! i) = Accepted"
  shows "i < length (friendships (snd (accept B A d))) \<and>
         friendships (snd (accept B A d)) ! i = friendships d ! i"
proof -
  let ?P = "\<lambda>r. userId r = A \<and> friendUserId r = B \<and> status r = Requested"
  let ?f = "\<lambda>r. if ?P r then r\<lparr>status := Accepted\<rparr> else r"
  let ?x = "friendships d ! i"
  have fx: "?f ?x = ?x"
    using acc by simp
  from accept_cases [of B A d] consider
      "snd (accept B A d) = d"
    | e where "e \<in> set (friendships (updateTable ?P Accepted d))" "status e = Requested"
        "snd (accept B A d) = updateTable (\<lambda>r. id' r = id' e) Accepted (updateTable ?P Accepted d)"
    | "snd (accept B A d) =
         d\<lparr>friendships := map ?f (friendships d) @
              [\<lparr>id' = nextId d, userId = B, friendUserId = A, status = Accepted\<rparr>],
           nextId := Suc (nextId d)\<rparr>"
    by blast
  then show ?thesis
  proof cases
    case 1
    with i show ?thesis by simp
  next
    case 2
    have "friendships (snd (accept B A d)) =
            map (\<lambda>r. if ?P r \<or> id' r = id' e then r\<lparr>status := Accepted\<rparr> else r) (friendships d)"
      by (simp only: 2(3) updateTable_sel map_status_twice)
    moreover have "(if ?P ?x \<or> id' ?x = id' e then ?x\<lparr>status := Accepted\<rparr> else ?x) = ?x"
      using acc by simp
    ultimately show ?thesis
      using i by simp
  next
    case 3
    then have "friendships (snd (accept B A d)) = map ?f (friendships d) @
              [\<lparr>id' = nextId d, userId = B, friendUserId = A, status = Accepted\<rparr>]"
      by simp
    with i fx show ?thesis
      by (simp add: nth_append)
  qed
qed

section \<open>Properties of the router\<close>

text \<open>
  C1 (resend after decline). Let \<open>B\<close> be a known user and let the store hold no
  record of the direction \<open>(A, B)\<close>. Then \<open>Send(A,B)\<close>, \<open>Decline(B,A)\<close>,
  \<open>Send(A,B)\<close> all succeed, whether or not the table enforces one row per
  direction. After the decline the store holds the one new row as declined; the
  second send turns that row back to requested and inserts nothing: the store
  ends as the store of the start with the single row \<open>(A, B, requested)\<close> added,
  and one id used.
\<close>

theorem resend_after_decline:
  assumes wf: "wf_ids d"
    and B: "B \<in> set (users d)"
    and fresh: "filter (directed A B) (friendships d) = []"
  shows "serve_all [Send A B, Decline B A, Send A B] d =
           ([Inr (), Inr (), Inr ()],
            d\<lparr>friendships := friendships d @
                 [\<lparr>id' = nextId d, userId = A, friendUserId = B, status = Requested\<rparr>],
              nextId := Suc (nextId d)\<rparr>) \<and>
         snd (serve_all [Send A B, Decline B A] d) =
            d\<lparr>friendships := friendships d @
                 [\<lparr>id' = nextId d, userId = A, friendUserId = B, status = Declined\<rparr>],
              nextId := Suc (nextId d)\<rparr> \<and>
         filter (directed A B)
           (friendships (snd (serve_all [Send A B, Decline B A, Send A B] d))) =
           [\<lparr>id' = nextId d, userId = A, friendUserId = B, status = Requested\<rparr>]"
proof -
  let ?row = "\<lambda>s. \<lparr>id' = nextId d, userId = A, friendUserId = B, status = s\<rparr>"
  let ?d = "\<lambda>s. d\<lparr>friendships := friendships d @ [?row s], nextId := Suc (nextId d)\<rparr>"
  have nodir: "\<And>r. r \<in> set (friendships d) \<Longrightarrow> \<not> directed A B r"
    using fresh by (simp add: filter_empty_conv)
  have s1: "send A B d = (Inr (), ?d Requested)"
    using B nodir by (simp add: send_def canSend_pass send_mutation_fresh)
  have keep: "map (\<lambda>r. if userId r = A \<and> friendUserId r = B \<and> status r = Requested
                        then r\<lparr>status := Declined\<rparr> else r) (friendships d) = friendships d"
    using nodir by (intro map_status_id) (auto simp: directed_def)
  have "decline_mutation B A (?d Requested) = (Inr (), ?d Declined)"
    by (simp add: decline_mutation_def transaction_def decline_body_def updateTable_def keep)
  moreover have "canAnswerFriendshipRequest B A (decline_mutation B A) (?d Requested)
                   = decline_mutation B A (?d Requested)"
    by (rule canAnswer_pass [where r = "?row Requested"]) (simp_all add: directed_def)
  ultimately have s2: "decline B A (?d Requested) = (Inr (), ?d Declined)"
    by (simp add: decline_def)
  have "find (\<lambda>r. userId r = A \<and> friendUserId r = B \<and> status r = Declined)
          (friendships d @ [?row Declined]) = Some (?row Declined)"
    using nodir by (subst find_append_skip) (auto simp: directed_def)
  moreover have "map (\<lambda>r. if id' r = nextId d then r\<lparr>status := Requested\<rparr> else r)
                   (friendships d) = friendships d"
    using wf by (intro map_status_id) (auto simp: wf_ids_def)
  ultimately have "send_mutation A B (?d Declined) = (Inr (), ?d Requested)"
    by (simp add: send_mutation_find updateTable_def)
  then have s3: "send A B (?d Declined) = (Inr (), ?d Requested)"
    using B by (simp add: send_def canSend_pass)
  show ?thesis
    by (simp add: s1 s2 s3 fresh directed_def)
qed

theorem resend_after_decline_witness:
  "wf_ids (sample_friends True) \<and> 3 \<in> set (users (sample_friends True)) \<and>
   filter (directed 1 3) (friendships (sample_friends True)) = [] \<and>
   serve_all [Send 1 3, Decline 3 1, Send 1 3] (sample_friends True) =
     ([Inr (), Inr (), Inr ()],
      \<lparr>users = [1, 2, 3],
       friendships = [\<lparr>id' = 0, userId = 1, friendUserId = 2, status = Accepted\<rparr>,
                      \<lparr>id' = 1, userId = 2, friendUserId = 1, status = Accepted\<rparr>,
                      \<lparr>id' = 2, userId = 1, friendUserId = 3, status = Requested\<rparr>],
       nextId = 3, uniqueDirection = True\<rparr>)"
proof -
  have h1: "wf_ids (sample_friends True)"
    by (simp add: sample_friends_def wf_ids_def)
  have h2: "3 \<in> set (users (sample_friends True))"
    by (simp add: sample_friends_def)
  have h3: "filter (directed 1 3) (friendships (sample_friends True)) = []"
    by (simp add: sample_friends_def directed_def)
  from resend_after_decline [OF h1 h2 h3] h1 h2 h3 show ?thesis
    by (simp add: sample_friends_def)
qed

text \<open>
  C2 (mutual accept, cross requests). Let \<open>A\<close> and \<open>B\<close> be distinct known users
  and let the store hold no record of the directions \<open>(A, B)\<close> and \<open>(B, A)\<close>.
  Then \<open>Send(A,B)\<close>, \<open>Send(B,A)\<close>, \<open>Accept(B,A)\<close> all succeed and the store ends
  as the store of the start with two rows added, \<open>(A, B)\<close> and \<open>(B, A)\<close>, both
  accepted. Two ids are used, one by each send: the accept updates the row
  \<open>(B, A)\<close> that was there and inserts nothing.
\<close>

theorem cross_requests_accept:
  assumes wf: "wf_ids d"
    and AB: "A \<noteq> B"
    and A: "A \<in> set (users d)" and B: "B \<in> set (users d)"
    and freshAB: "filter (directed A B) (friendships d) = []"
    and freshBA: "filter (directed B A) (friendships d) = []"
  shows "serve_all [Send A B, Send B A, Accept B A] d =
           ([Inr (), Inr (), Inr ()],
            d\<lparr>friendships := friendships d @
                 [\<lparr>id' = nextId d, userId = A, friendUserId = B, status = Accepted\<rparr>,
                  \<lparr>id' = Suc (nextId d), userId = B, friendUserId = A, status = Accepted\<rparr>],
              nextId := Suc (Suc (nextId d))\<rparr>) \<and>
         filter (\<lambda>r. directed A B r \<or> directed B A r)
           (friendships (snd (serve_all [Send A B, Send B A, Accept B A] d))) =
           [\<lparr>id' = nextId d, userId = A, friendUserId = B, status = Accepted\<rparr>,
            \<lparr>id' = Suc (nextId d), userId = B, friendUserId = A, status = Accepted\<rparr>]"
proof -
  let ?ab = "\<lambda>s. \<lparr>id' = nextId d, userId = A, friendUserId = B, status = s\<rparr>"
  let ?ba = "\<lambda>s. \<lparr>id' = Suc (nextId d), userId = B, friendUserId = A, status = s\<rparr>"
  let ?d1 = "d\<lparr>friendships := friendships d @ [?ab Requested], nextId := Suc (nextId d)\<rparr>"
  let ?d2 = "\<lambda>s. d\<lparr>friendships := friendships d @ [?ab s, ?ba s],
                   nextId := Suc (Suc (nextId d))\<rparr>"
  have noAB: "\<And>r. r \<in> set (friendships d) \<Longrightarrow> \<not> directed A B r"
    using freshAB by (simp add: filter_empty_conv)
  have noBA: "\<And>r. r \<in> set (friendships d) \<Longrightarrow> \<not> directed B A r"
    using freshBA by (simp add: filter_empty_conv)
  have old: "\<And>r. r \<in> set (friendships d) \<Longrightarrow> id' r < nextId d"
    using wf by (simp add: wf_ids_def)
  have s1: "send A B d = (Inr (), ?d1)"
    using B noAB by (simp add: send_def canSend_pass send_mutation_fresh)
  have nab: "\<not> directed B A (?ab Requested)"
    using AB by (simp add: directed_def)
  have nb: "\<And>r. r \<in> set (friendships ?d1) \<Longrightarrow> \<not> directed B A r"
    using noBA nab by auto
  have "send_mutation B A ?d1 = (Inr (), ?d2 Requested)"
    using send_mutation_fresh [of ?d1 B A, OF nb] by simp
  then have s2: "send B A ?d1 = (Inr (), ?d2 Requested)"
    using A by (simp add: send_def canSend_pass)
  have k1: "map (\<lambda>r. if userId r = A \<and> friendUserId r = B \<and> status r = Requested
                      then r\<lparr>status := Accepted\<rparr> else r) (friendships d) = friendships d"
    using noAB by (intro map_status_id) (auto simp: directed_def)
  have k2: "map (\<lambda>r. if id' r = Suc (nextId d) then r\<lparr>status := Accepted\<rparr> else r)
              (friendships d) = friendships d"
    using old by (intro map_status_id) fastforce
  have fnd: "find (\<lambda>r. userId r = B \<and> friendUserId r = A \<and> status r = Requested)
               (friendships d @ [?ab Accepted, ?ba Requested]) = Some (?ba Requested)"
    using noBA AB by (subst find_append_skip) (auto simp: directed_def)
  have "accept_body B A (?d2 Requested) = (Inr (), ?d2 Accepted)"
    using AB by (simp add: accept_body_find updateTable_def k1 fnd k2)
  then have "accept_mutation B A (?d2 Requested) = (Inr (), ?d2 Accepted)"
    by (simp add: accept_mutation_def transaction_ok)
  moreover have "canAnswerFriendshipRequest B A (accept_mutation B A) (?d2 Requested)
                   = accept_mutation B A (?d2 Requested)"
    by (rule canAnswer_pass [where r = "?ab Requested"]) (simp_all add: directed_def)
  ultimately have s3: "accept B A (?d2 Requested) = (Inr (), ?d2 Accepted)"
    by (simp add: accept_def)
  have f: "filter (\<lambda>r. directed A B r \<or> directed B A r) (friendships d) = []"
    using noAB noBA by (auto simp: filter_empty_conv)
  have run: "serve_all [Send A B, Send B A, Accept B A] d =
           ([Inr (), Inr (), Inr ()], ?d2 Accepted)"
    by (simp add: s1 s2 s3)
  let ?P = "\<lambda>r. directed A B r \<or> directed B A r"
  have "filter ?P (friendships (?d2 Accepted)) =
          filter ?P (friendships d) @ filter ?P [?ab Accepted, ?ba Accepted]"
    by simp
  also have "\<dots> = [?ab Accepted, ?ba Accepted]"
    unfolding f by (simp add: directed_def)
  finally have "filter ?P (friendships (?d2 Accepted)) = [?ab Accepted, ?ba Accepted]" .
  with run show ?thesis
    by simp
qed


theorem cross_requests_accept_witness:
  "wf_ids (sample_friends True) \<and> (1::nat) \<noteq> 3 \<and>
   1 \<in> set (users (sample_friends True)) \<and> 3 \<in> set (users (sample_friends True)) \<and>
   filter (directed 1 3) (friendships (sample_friends True)) = [] \<and>
   filter (directed 3 1) (friendships (sample_friends True)) = [] \<and>
   serve_all [Send 1 3, Send 3 1, Accept 3 1] (sample_friends True) =
     ([Inr (), Inr (), Inr ()],
      \<lparr>users = [1, 2, 3],
       friendships = [\<lparr>id' = 0, userId = 1, friendUserId = 2, status = Accepted\<rparr>,
                      \<lparr>id' = 1, userId = 2, friendUserId = 1, status = Accepted\<rparr>,
                      \<lparr>id' = 2, userId = 1, friendUserId = 3, status = Accepted\<rparr>,
                      \<lparr>id' = 3, userId = 3, friendUserId = 1, status = Accepted\<rparr>],
       nextId = 4, uniqueDirection = True\<rparr>)"
proof -
  have h1: "wf_ids (sample_friends True)"
    by (simp add: sample_friends_def wf_ids_def)
  have h2: "(1::nat) \<noteq> 3"
    by simp
  have h3: "1 \<in> set (users (sample_friends True))" and h4: "3 \<in> set (users (sample_friends True))"
    by (simp_all add: sample_friends_def)
  have h5: "filter (directed 1 3) (friendships (sample_friends True)) = []"
    and h6: "filter (directed 3 1) (friendships (sample_friends True)) = []"
    by (simp_all add: sample_friends_def directed_def)
  from cross_requests_accept [OF h1 h2 h3 h4 h5 h6] h1 h3 h4 h5 h6 show ?thesis
    by (simp add: sample_friends_def)
qed

text \<open>
  C3 (mutual accept, one-sided request). Let \<open>r\<close> be the one record of the
  direction \<open>(A, B)\<close>, with status requested, and let the store hold no record of
  the direction \<open>(B, A)\<close> (so \<open>A\<close> and \<open>B\<close> differ). Then \<open>Accept(B,A)\<close> succeeds,
  sets \<open>r\<close> to accepted, and appends a new row \<open>(B, A)\<close> with status accepted:
  afterwards each of the two directions has exactly one record, both accepted.
  Every other row is as it was.
\<close>

theorem one_sided_accept:
  assumes inbound: "filter (directed A B) (friendships d) = [r]"
    and req: "status r = Requested"
    and noBA: "filter (directed B A) (friendships d) = []"
  shows "accept B A d =
           (Inr (),
            d\<lparr>friendships :=
                 map (\<lambda>x. if x = r then x\<lparr>status := Accepted\<rparr> else x) (friendships d) @
                 [\<lparr>id' = nextId d, userId = B, friendUserId = A, status = Accepted\<rparr>],
              nextId := Suc (nextId d)\<rparr>) \<and>
         filter (directed A B) (friendships (snd (accept B A d))) = [r\<lparr>status := Accepted\<rparr>] \<and>
         filter (directed B A) (friendships (snd (accept B A d))) =
           [\<lparr>id' = nextId d, userId = B, friendUserId = A, status = Accepted\<rparr>]"
proof -
  let ?upd = "\<lambda>x. if x = r then x\<lparr>status := Accepted\<rparr> else x"
  let ?new = "\<lparr>id' = nextId d, userId = B, friendUserId = A, status = Accepted\<rparr>"
  let ?d' = "d\<lparr>friendships := map ?upd (friendships d) @ [?new], nextId := Suc (nextId d)\<rparr>"
  have r_in: "r \<in> set (friendships d)" and r_dir: "directed A B r"
    using filter_eq_ConsD [OF inbound] by auto
  have AB: "A \<noteq> B"
  proof
    assume "A = B"
    with r_in r_dir have "r \<in> set (filter (directed B A) (friendships d))" by simp
    with noBA show False by simp
  qed
  have only: "\<And>x. x \<in> set (friendships d) \<Longrightarrow>
                 (userId x = A \<and> friendUserId x = B \<and> status x = Requested) = (x = r)"
    using filter_directed_single [OF inbound] req by (auto simp: directed_def)
  have m: "map (\<lambda>x. if userId x = A \<and> friendUserId x = B \<and> status x = Requested
                     then x\<lparr>status := Accepted\<rparr> else x) (friendships d)
             = map ?upd (friendships d)"
    by (rule map_status_cong) (rule only)
  have fBA: "filter (directed B A) (map ?upd (friendships d)) = []"
    by (simp only: filter_map_status noBA list.map)
  then have none: "\<And>x. x \<in> set (map ?upd (friendships d)) \<Longrightarrow> \<not> directed B A x"
    by (simp only: filter_empty_conv) blast
  have fnd: "find (\<lambda>x. userId x = B \<and> friendUserId x = A \<and> status x = Requested)
               (map ?upd (friendships d)) = None"
    using none by (auto simp: find_None_iff directed_def)
  let ?t1 = "d\<lparr>friendships := map ?upd (friendships d)\<rparr>"
  have nb: "\<And>x. x \<in> set (friendships ?t1) \<Longrightarrow> \<not> directed B A x"
    using none by simp
  have "insertInto B A Accepted ?t1 = (Inr (), ?d')"
    using insertInto_fresh [of ?t1 B A Accepted, OF nb] by simp
  then have "accept_body B A d = (Inr (), ?d')"
    by (simp add: accept_body_find updateTable_def m fnd)
  then have "accept_mutation B A d = (Inr (), ?d')"
    by (simp add: accept_mutation_def transaction_ok)
  moreover have "canAnswerFriendshipRequest B A (accept_mutation B A) d = accept_mutation B A d"
    using r_in r_dir req by (rule canAnswer_pass)
  ultimately have res: "accept B A d = (Inr (), ?d')"
    by (simp add: accept_def)
  have "filter (directed A B) (friendships ?d') =
          filter (directed A B) (map ?upd (friendships d)) @ filter (directed A B) [?new]"
    by simp
  also have "\<dots> = [r\<lparr>status := Accepted\<rparr>]"
    using AB by (simp only: filter_map_status inbound) (simp add: directed_def)
  finally have fab: "filter (directed A B) (friendships ?d') = [r\<lparr>status := Accepted\<rparr>]" .
  have "filter (directed B A) (friendships ?d') =
          filter (directed B A) (map ?upd (friendships d)) @ filter (directed B A) [?new]"
    by simp
  also have "\<dots> = [?new]"
    unfolding fBA by (simp add: directed_def)
  finally have fba: "filter (directed B A) (friendships ?d') = [?new]" .
  show ?thesis
    unfolding res snd_conv using fab fba by blast
qed

theorem one_sided_accept_witness:
  "filter (directed 3 1) (friendships (sample_pending True)) =
     [\<lparr>id' = 2, userId = 3, friendUserId = 1, status = Requested\<rparr>] \<and>
   filter (directed 1 3) (friendships (sample_pending True)) = [] \<and>
   accept 1 3 (sample_pending True) =
     (Inr (),
      \<lparr>users = [1, 2, 3],
       friendships = [\<lparr>id' = 0, userId = 1, friendUserId = 2, status = Requested\<rparr>,
                      \<lparr>id' = 1, userId = 2, friendUserId = 1, status = Declined\<rparr>,
                      \<lparr>id' = 2, userId = 3, friendUserId = 1, status = Accepted\<rparr>,
                      \<lparr>id' = 3, userId = 1, friendUserId = 3, status = Accepted\<rparr>],
       nextId = 4, uniqueDirection = True\<rparr>)"
proof -
  let ?r = "\<lparr>id' = 2, userId = 3, friendUserId = 1, status = Requested\<rparr>"
  have h1: "filter (directed 3 1) (friendships (sample_pending True)) = [?r]"
    by (simp add: sample_pending_def directed_def)
  have h2: "status ?r = Requested"
    by simp
  have h3: "filter (directed 1 3) (friendships (sample_pending True)) = []"
    by (simp add: sample_pending_def directed_def)
  from one_sided_accept [OF h1 h2 h3] h1 h3 show ?thesis
    by (simp add: sample_pending_def)
qed

text \<open>
  C4 (decline is one-directional). Let \<open>r\<close> be a record \<open>(A, B)\<close> of the store with
  status requested. Then \<open>Decline(B,A)\<close> succeeds and the table it leaves is the
  old one with the status declined written into the requested records of the
  direction \<open>(A, B)\<close>, \<open>r\<close> among them, and nothing else changed: no row is
  added (the ids of the rows are the same), for \<open>A \<noteq> B\<close> the records of the
  direction \<open>(B, A)\<close> are what they were, and when \<open>r\<close> is the one record of its
  direction, every row but \<open>r\<close> is what it was.
\<close>

theorem decline_one_directional:
  assumes r_in: "r \<in> set (friendships d)"
    and r_dir: "directed A B r"
    and req: "status r = Requested"
  shows "decline B A d =
           (Inr (),
            d\<lparr>friendships :=
                 map (\<lambda>x. if directed A B x \<and> status x = Requested
                           then x\<lparr>status := Declined\<rparr> else x) (friendships d)\<rparr>) \<and>
         r\<lparr>status := Declined\<rparr> \<in> set (friendships (snd (decline B A d))) \<and>
         map id' (friendships (snd (decline B A d))) = map id' (friendships d) \<and>
         (A \<noteq> B \<longrightarrow> filter (directed B A) (friendships (snd (decline B A d))) =
                       filter (directed B A) (friendships d)) \<and>
         (filter (directed A B) (friendships d) = [r] \<longrightarrow>
            friendships (snd (decline B A d)) =
              map (\<lambda>x. if x = r then x\<lparr>status := Declined\<rparr> else x) (friendships d))"
proof -
  let ?upd = "\<lambda>x. if directed A B x \<and> status x = Requested then x\<lparr>status := Declined\<rparr> else x"
  let ?d' = "d\<lparr>friendships := map ?upd (friendships d)\<rparr>"
  have "decline_mutation B A d = (Inr (), ?d')"
    by (simp add: decline_mutation_def transaction_def decline_body_def updateTable_def
                  directed_def)
  moreover have "canAnswerFriendshipRequest B A (decline_mutation B A) d = decline_mutation B A d"
    using r_in r_dir req by (rule canAnswer_pass)
  ultimately have res: "decline B A d = (Inr (), ?d')"
    by (simp add: decline_def)
  have "?upd r \<in> set (map ?upd (friendships d))"
    using r_in by (simp only: set_map) (rule imageI)
  then have c2: "r\<lparr>status := Declined\<rparr> \<in> set (friendships ?d')"
    using r_dir req by simp
  have c3: "map id' (friendships ?d') = map id' (friendships d)"
    by (simp only: friendships_upd map_id_status)
  have c4: "filter (directed B A) (friendships ?d') = filter (directed B A) (friendships d)"
    if "A \<noteq> B"
  proof -
    have "\<And>x. x \<in> set (filter (directed B A) (friendships d)) \<Longrightarrow>
            \<not> (directed A B x \<and> status x = Requested)"
      using that by (auto simp: directed_def)
    then have "map ?upd (filter (directed B A) (friendships d)) = filter (directed B A) (friendships d)"
      by (rule map_status_id)
    then show ?thesis
      by (simp only: friendships_upd filter_map_status)
  qed
  have c5: "friendships ?d' = map (\<lambda>x. if x = r then x\<lparr>status := Declined\<rparr> else x) (friendships d)"
    if "filter (directed A B) (friendships d) = [r]"
  proof -
    have "\<And>x. x \<in> set (friendships d) \<Longrightarrow> (directed A B x \<and> status x = Requested) = (x = r)"
      using filter_directed_single [OF that] req by auto
    then have "map ?upd (friendships d) =
                 map (\<lambda>x. if x = r then x\<lparr>status := Declined\<rparr> else x) (friendships d)"
      by (rule map_status_cong)
    then show ?thesis
      by (simp only: friendships_upd)
  qed
  show ?thesis
    unfolding res snd_conv using c2 c3 c4 c5 by blast
qed

theorem decline_one_directional_witness:
  "\<lparr>id' = 0, userId = 1, friendUserId = 2, status = Requested\<rparr>
     \<in> set (friendships (sample_pending False)) \<and>
   (1::nat) \<noteq> 2 \<and>
   filter (directed 1 2) (friendships (sample_pending False)) =
     [\<lparr>id' = 0, userId = 1, friendUserId = 2, status = Requested\<rparr>] \<and>
   decline 2 1 (sample_pending False) =
     (Inr (),
      \<lparr>users = [1, 2, 3],
       friendships = [\<lparr>id' = 0, userId = 1, friendUserId = 2, status = Declined\<rparr>,
                      \<lparr>id' = 1, userId = 2, friendUserId = 1, status = Declined\<rparr>,
                      \<lparr>id' = 2, userId = 3, friendUserId = 1, status = Requested\<rparr>],
       nextId = 3, uniqueDirection = False\<rparr>) \<and>
   filter (directed 2 1) (friendships (snd (decline 2 1 (sample_pending False)))) =
     [\<lparr>id' = 1, userId = 2, friendUserId = 1, status = Declined\<rparr>]"
proof -
  let ?r = "\<lparr>id' = 0, userId = 1, friendUserId = 2, status = Requested\<rparr>"
  have h1: "?r \<in> set (friendships (sample_pending False))"
    by (simp add: sample_pending_def)
  have h2: "directed 1 2 ?r"
    by (simp add: directed_def)
  have h3: "status ?r = Requested"
    by simp
  have h4: "filter (directed 1 2) (friendships (sample_pending False)) = [?r]"
    by (simp add: sample_pending_def directed_def)
  have h5: "filter (directed 2 1) (friendships (sample_pending False)) =
              [\<lparr>id' = 1, userId = 2, friendUserId = 1, status = Declined\<rparr>]"
    by (simp add: sample_pending_def directed_def)
  from decline_one_directional [OF h1 h2 h3] h1 h4 h5 show ?thesis
    by (simp add: sample_pending_def directed_def)
qed

text \<open>
  C5 (authorization guard). When the store holds no record \<open>(A, B)\<close> with status
  requested, \<open>Accept(B,A)\<close> and \<open>Decline(B,A)\<close> both fail with the
  \<^verbatim>\<open>BAD_REQUEST\<close> error of the middleware and leave the store as it was. The
  middleware gives that result whatever the rest of the procedure is: the
  mutation is not run.
\<close>

theorem answer_not_requested:
  "\<not> (\<exists>r \<in> set (friendships d). directed A B r \<and> status r = Requested) \<Longrightarrow>
     accept B A d = (Inl (TRPCError BAD_REQUEST), d) \<and>
     decline B A d = (Inl (TRPCError BAD_REQUEST), d) \<and>
     (\<forall>nxt :: database \<Rightarrow> unit outcome.
        canAnswerFriendshipRequest B A nxt d = (Inl (TRPCError BAD_REQUEST), d))"
proof -
  assume "\<not> (\<exists>r \<in> set (friendships d). directed A B r \<and> status r = Requested)"
  then have "filter (\<lambda>r. userId r = A \<and> friendUserId r = B \<and> status r = Requested)
               (friendships d) = []"
    by (auto simp: filter_empty_conv directed_def)
  then show ?thesis
    by (simp add: accept_def decline_def canAnswerFriendshipRequest_def
                  executeTakeFirstOrThrow_def)
qed

theorem answer_not_requested_witness:
  "\<not> (\<exists>r \<in> set (friendships (sample_friends False)). directed 1 2 r \<and> status r = Requested) \<and>
   accept 2 1 (sample_friends False) = (Inl (TRPCError BAD_REQUEST), sample_friends False) \<and>
   decline 2 1 (sample_friends False) = (Inl (TRPCError BAD_REQUEST), sample_friends False)"
proof -
  have h: "\<not> (\<exists>r \<in> set (friendships (sample_friends False)).
                 directed 1 2 r \<and> status r = Requested)"
    by (simp add: sample_friends_def directed_def)
  from answer_not_requested [OF h] h show ?thesis
    by simp
qed

text \<open>
  C6 (invalid target). When \<open>X\<close> is not the id of a user, \<open>Send(A,X)\<close> fails with
  the \<^verbatim>\<open>BAD_REQUEST\<close> error of the middleware, and the store, so every
  friendship record, is as it was; the mutation is not run.
\<close>

theorem send_invalid_target:
  "X \<notin> set (users d) \<Longrightarrow>
     send A X d = (Inl (TRPCError BAD_REQUEST), d) \<and>
     (\<forall>nxt :: database \<Rightarrow> unit outcome.
        canSendFriendshipRequest A X nxt d = (Inl (TRPCError BAD_REQUEST), d))"
proof -
  assume "X \<notin> set (users d)"
  then have "filter (\<lambda>u. u = X) (users d) = []"
    by (auto simp: filter_empty_conv)
  then show ?thesis
    by (simp add: send_def canSendFriendshipRequest_def executeTakeFirstOrThrow_def)
qed

theorem send_invalid_target_witness:
  "7 \<notin> set (users (sample_empty True)) \<and>
   send 1 7 (sample_empty True) = (Inl (TRPCError BAD_REQUEST), sample_empty True)"
proof -
  have h: "7 \<notin> set (users (sample_empty True))"
    by (simp add: sample_empty_def)
  from send_invalid_target [OF h] h show ?thesis
    by simp
qed

text \<open>
  C7 (accept on an accepted record) says that the call commits without error.
  It does not: with the inbound record \<open>(1, 2)\<close> accepted and no record \<open>(1, 2)\<close>
  requested, \<open>Accept(2,1)\<close> is rejected by the middleware with \<^verbatim>\<open>BAD_REQUEST\<close>,
  the store unchanged.
\<close>

theorem accept_already_accepted_counterexample:
  "directed 1 2 (friendships (sample_friends True) ! 0) \<and>
   status (friendships (sample_friends True) ! 0) = Accepted \<and>
   accept 2 1 (sample_friends True) = (Inl (TRPCError BAD_REQUEST), sample_friends True) \<and>
   fst (accept 2 1 (sample_friends True)) \<noteq> Inr ()"
  by (simp add: sample_friends_def directed_def accept_def canAnswerFriendshipRequest_def
        executeTakeFirstOrThrow_def)

text \<open>
  C7, amended. A record \<open>(A, B)\<close> with status accepted is left as it is by
  \<open>Accept(B,A)\<close>, at its place in the table. When no record \<open>(A, B)\<close> has
  status requested, the call is rejected by the middleware with \<^verbatim>\<open>BAD_REQUEST\<close>
  before the transaction starts, and the store is unchanged.
\<close>

theorem accept_already_accepted:
  assumes "i < length (friendships d)"
    and "directed A B (friendships d ! i)"
    and "status (friendships d ! i) = Accepted"
  shows "i < length (friendships (snd (accept B A d))) \<and>
         friendships (snd (accept B A d)) ! i = friendships d ! i \<and>
         (filter (\<lambda>x. directed A B x \<and> status x = Requested) (friendships d) = [] \<longrightarrow>
            accept B A d = (Inl (TRPCError BAD_REQUEST), d))"
proof -
  have "accept B A d = (Inl (TRPCError BAD_REQUEST), d)"
    if "filter (\<lambda>x. directed A B x \<and> status x = Requested) (friendships d) = []"
  proof -
    from that have
      "filter (\<lambda>r. userId r = A \<and> friendUserId r = B \<and> status r = Requested) (friendships d) = []"
      by (simp add: directed_def)
    then show ?thesis
      by (simp add: accept_def canAnswerFriendshipRequest_def executeTakeFirstOrThrow_def)
  qed
  with accept_keeps_accepted [OF assms(1,3), of B A] show ?thesis
    by blast
qed

theorem accept_already_accepted_witness:
  "0 < length (friendships (sample_friends True)) \<and>
   directed 1 2 (friendships (sample_friends True) ! 0) \<and>
   status (friendships (sample_friends True) ! 0) = Accepted \<and>
   filter (\<lambda>x. directed 1 2 x \<and> status x = Requested) (friendships (sample_friends True)) = [] \<and>
   friendships (snd (accept 2 1 (sample_friends True))) ! 0 =
     \<lparr>id' = 0, userId = 1, friendUserId = 2, status = Accepted\<rparr> \<and>
   accept 2 1 (sample_friends True) = (Inl (TRPCError BAD_REQUEST), sample_friends True)"
proof -
  have h1: "0 < length (friendships (sample_friends True))"
    by (simp add: sample_friends_def)
  have h2: "directed 1 2 (friendships (sample_friends True) ! 0)"
    by (simp add: sample_friends_def directed_def)
  have h3: "status (friendships (sample_friends True) ! 0) = Accepted"
    by (simp add: sample_friends_def)
  have h4: "filter (\<lambda>x. directed 1 2 x \<and> status x = Requested)
              (friendships (sample_friends True)) = []"
    by (simp add: sample_friends_def directed_def)
  have h5: "friendships (sample_friends True) ! 0 =
              \<lparr>id' = 0, userId = 1, friendUserId = 2, status = Accepted\<rparr>"
    by (simp add: sample_friends_def)
  from accept_already_accepted [OF h1 h2 h3] h1 h2 h3 h4 h5 show ?thesis
    by simp
qed

text \<open>
  C8 (status transitions). From a store whose ids are a primary key, after any
  sequence of requests \<open>qs\<close>, whatever they are and whether they succeed, any
  further request \<open>q\<close> leaves every row at its place with its id and users and
  changes its status, if at all, from requested to accepted, from requested to
  declined, or from declined to requested. A row that is accepted is the same
  row after every sequence of requests.
\<close>

theorem status_transitions:
  assumes "wf_ids d"
  shows "evolves (friendships (snd (serve_all qs d)))
           (friendships (snd (serve q (snd (serve_all qs d))))) \<and>
         (\<forall>i < length (friendships d).
            status (friendships d ! i) = Accepted \<longrightarrow>
              i < length (friendships (snd (serve_all qs d))) \<and>
              friendships (snd (serve_all qs d)) ! i = friendships d ! i)"
  using evolves_serve [OF wf_serve_all [OF assms]] accepted_serve_all [OF assms]
  by blast

theorem status_transitions_witness:
  "wf_ids (sample_friends False) \<and>
   map status (friendships (snd (serve_all [Send 1 2, Decline 2 1, Accept 2 1, Send 3 1]
                                   (sample_friends False)))) =
     [Accepted, Accepted, Declined, Requested] \<and>
   map status (friendships (snd (serve (Send 1 2)
       (snd (serve_all [Send 1 2, Decline 2 1, Accept 2 1, Send 3 1] (sample_friends False)))))) =
     [Accepted, Accepted, Requested, Requested] \<and>
   evolves
     (friendships (snd (serve_all [Send 1 2, Decline 2 1, Accept 2 1, Send 3 1]
                          (sample_friends False))))
     (friendships (snd (serve (Send 1 2)
        (snd (serve_all [Send 1 2, Decline 2 1, Accept 2 1, Send 3 1] (sample_friends False)))))) \<and>
   friendships (snd (serve_all [Send 1 2, Decline 2 1, Accept 2 1, Send 3 1]
                       (sample_friends False))) ! 0 =
     friendships (sample_friends False) ! 0"
proof -
  let ?qs = "[Send 1 2, Decline 2 1, Accept 2 1, Send 3 1]"
  have h1: "wf_ids (sample_friends False)"
    by (simp add: sample_friends_def wf_ids_def)
  have h2: "0 < length (friendships (sample_friends False))"
    and h3: "status (friendships (sample_friends False) ! 0) = Accepted"
    by (simp_all add: sample_friends_def)
  have run: "snd (serve_all ?qs (sample_friends False)) =
     \<lparr>users = [1, 2, 3],
      friendships = [\<lparr>id' = 0, userId = 1, friendUserId = 2, status = Accepted\<rparr>,
                     \<lparr>id' = 1, userId = 2, friendUserId = 1, status = Accepted\<rparr>,
                     \<lparr>id' = 2, userId = 1, friendUserId = 2, status = Declined\<rparr>,
                     \<lparr>id' = 3, userId = 3, friendUserId = 1, status = Requested\<rparr>],
      nextId = 4, uniqueDirection = False\<rparr>"
    by (simp add: sample_friends_def send_def accept_def decline_def
          canSendFriendshipRequest_def canAnswerFriendshipRequest_def
          executeTakeFirstOrThrow_def executeTakeFirst_def send_mutation_def
          decline_mutation_def decline_body_def transaction_def insertInto_def updateTable_def)
  have nxt: "map status (friendships (snd (serve (Send 1 2) (snd (serve_all ?qs (sample_friends False)))))) =
               [Accepted, Accepted, Requested, Requested]"
    unfolding run
    by (simp add: send_def canSendFriendshipRequest_def executeTakeFirstOrThrow_def
          executeTakeFirst_def send_mutation_def updateTable_def)
  have st: "map status (friendships (snd (serve_all ?qs (sample_friends False)))) =
              [Accepted, Accepted, Declined, Requested]"
    unfolding run by simp
  from status_transitions [OF h1, of ?qs "Send 1 2"] h1 h2 h3 st nxt show ?thesis
    by blast
qed

text \<open>
  C9 (send while a record is pending or accepted). Let \<open>B\<close> be a known user and
  let \<open>r\<close> be the one record of the direction \<open>(A, B)\<close>, with status requested or
  accepted. Then \<open>Send(A,B)\<close> finds no declined record and is the insert
  statement for \<open>(A, B, requested)\<close>, not the update. On a table that does not
  enforce one row per direction the insert goes through and the direction has
  two records, \<open>r\<close> and the new one; on a table that enforces it the insert is
  rejected and the store is unchanged.
\<close>

theorem resend_while_pending:
  assumes B: "B \<in> set (users d)"
    and only: "filter (directed A B) (friendships d) = [r]"
    and st: "status r = Requested \<or> status r = Accepted"
  shows "send A B d = insertInto A B Requested d \<and>
         (\<not> uniqueDirection d \<longrightarrow>
            send A B d =
              (Inr (), d\<lparr>friendships := friendships d @
                          [\<lparr>id' = nextId d, userId = A, friendUserId = B, status = Requested\<rparr>],
                        nextId := Suc (nextId d)\<rparr>) \<and>
            filter (directed A B) (friendships (snd (send A B d))) =
              [r, \<lparr>id' = nextId d, userId = A, friendUserId = B, status = Requested\<rparr>]) \<and>
         (uniqueDirection d \<longrightarrow> send A B d = (Inl ConstraintViolation, d))"
proof -
  let ?new = "\<lparr>id' = nextId d, userId = A, friendUserId = B, status = Requested\<rparr>"
  let ?d' = "d\<lparr>friendships := friendships d @ [?new], nextId := Suc (nextId d)\<rparr>"
  have r_in: "r \<in> set (friendships d)" and r_dir: "directed A B r"
    using filter_eq_ConsD [OF only] by auto
  have "\<not> (userId x = A \<and> friendUserId x = B \<and> status x = Declined)"
    if "x \<in> set (friendships d)" for x
  proof
    assume a: "userId x = A \<and> friendUserId x = B \<and> status x = Declined"
    then have "directed A B x" by (simp add: directed_def)
    then have "x = r" using filter_directed_single [OF only that] by simp
    with a st show False by auto
  qed
  then have "find (\<lambda>x. userId x = A \<and> friendUserId x = B \<and> status x = Declined)
               (friendships d) = None"
    by (simp only: find_None_iff) blast
  then have "send_mutation A B d = insertInto A B Requested d"
    by (simp add: send_mutation_find)
  then have path: "send A B d = insertInto A B Requested d"
    using B by (simp add: send_def canSend_pass)
  have ex: "\<exists>x \<in> set (friendships d). userId x = A \<and> friendUserId x = B"
    using r_in r_dir by (auto simp: directed_def)
  have u: "insertInto A B Requested d = (Inl ConstraintViolation, d)" if "uniqueDirection d"
    using that ex by (simp add: insertInto_def)
  have n: "insertInto A B Requested d = (Inr (), ?d')" if "\<not> uniqueDirection d"
    using that by (simp add: insertInto_def)
  have "filter (directed A B) (friendships ?d') =
          filter (directed A B) (friendships d) @ filter (directed A B) [?new]"
    by simp
  also have "\<dots> = [r, ?new]"
    unfolding only by (simp add: directed_def)
  finally have f: "filter (directed A B) (friendships ?d') = [r, ?new]" .
  show ?thesis
    unfolding path using u n f by (cases "uniqueDirection d") simp_all
qed

theorem resend_while_pending_witness:
  "2 \<in> set (users (sample_pending False)) \<and>
   filter (directed 1 2) (friendships (sample_pending False)) =
     [\<lparr>id' = 0, userId = 1, friendUserId = 2, status = Requested\<rparr>] \<and>
   send 1 2 (sample_pending False) =
     (Inr (),
      \<lparr>users = [1, 2, 3],
       friendships = [\<lparr>id' = 0, userId = 1, friendUserId = 2, status = Requested\<rparr>,
                      \<lparr>id' = 1, userId = 2, friendUserId = 1, status = Declined\<rparr>,
                      \<lparr>id' = 2, userId = 3, friendUserId = 1, status = Requested\<rparr>,
                      \<lparr>id' = 3, userId = 1, friendUserId = 2, status = Requested\<rparr>],
       nextId = 4, uniqueDirection = False\<rparr>) \<and>
   send 1 2 (sample_pending True) = (Inl ConstraintViolation, sample_pending True)"
proof -
  let ?r = "\<lparr>id' = 0, userId = 1, friendUserId = 2, status = Requested\<rparr>"
  have h1: "2 \<in> set (users (sample_pending u))" for u
    by (simp add: sample_pending_def)
  have h2: "filter (directed 1 2) (friendships (sample_pending u)) = [?r]" for u
    by (simp add: sample_pending_def directed_def)
  have h3: "status ?r = Requested \<or> status ?r = Accepted"
    by simp
  have u: "\<not> uniqueDirection (sample_pending False)" "uniqueDirection (sample_pending True)"
    by (simp_all add: sample_pending_def)
  from resend_while_pending [OF h1 h2 h3, of False, THEN conjunct2]
    resend_while_pending [OF h1 h2 h3, of True, THEN conjunct2]
    u h1 [of False] h2 [of False]
  show ?thesis
    by (simp add: sample_pending_def)
qed

text \<open>
  C10 (accept with a declined reverse record) says that the call inserts a new
  \<open>(B, A, accepted)\<close> row and leaves two records for the direction \<open>(B, A)\<close>.
  On a table that enforces one row per direction it does not: with the records
  \<open>(1, 2, requested)\<close> and \<open>(2, 1, declined)\<close>, \<open>Accept(2,1)\<close> fails with the
  error of the store, the transaction is rolled back, and the direction
  \<open>(2, 1)\<close> still has its one, declined, record.
\<close>

theorem accept_declined_reverse_counterexample:
  "uniqueDirection (sample_pending True) \<and>
   \<lparr>id' = 0, userId = 1, friendUserId = 2, status = Requested\<rparr>
     \<in> set (friendships (sample_pending True)) \<and>
   \<lparr>id' = 1, userId = 2, friendUserId = 1, status = Declined\<rparr>
     \<in> set (friendships (sample_pending True)) \<and>
   accept 2 1 (sample_pending True) = (Inl ConstraintViolation, sample_pending True) \<and>
   filter (directed 2 1) (friendships (snd (accept 2 1 (sample_pending True)))) =
     [\<lparr>id' = 1, userId = 2, friendUserId = 1, status = Declined\<rparr>]"
proof -
  have "accept 2 1 (sample_pending True) = (Inl ConstraintViolation, sample_pending True)"
    by (simp add: sample_pending_def accept_def canAnswerFriendshipRequest_def
          executeTakeFirstOrThrow_def accept_mutation_def transaction_def accept_body_def
          executeTakeFirst_def updateTable_def insertInto_def)
  then show ?thesis
    by (simp add: sample_pending_def directed_def)
qed

text \<open>
  C10, amended. Let \<open>r\<close> be a record \<open>(A, B)\<close> with status requested and let \<open>q\<close>
  be the one record of the direction \<open>(B, A)\<close>, with status declined. The lookup
  of \<open>Accept(B,A)\<close> for a reverse record matches the status requested only and
  finds nothing, so on every table the call is the transaction of the update
  of the inbound record followed by the insert of \<open>(B, A, accepted)\<close>, never an
  update of \<open>q\<close>, and \<open>q\<close> is left declined at its place. On a table that does
  not enforce one row per direction the insert goes through and the direction
  \<open>(B, A)\<close> has two records, \<open>q\<close> and the new one; on a table that enforces it
  the insert is rejected, the call fails with the error of the store and the
  transaction is rolled back, the store unchanged.
\<close>

theorem accept_declined_reverse:
  assumes r_in: "r \<in> set (friendships d)"
    and r_dir: "directed A B r"
    and req: "status r = Requested"
    and rev: "filter (directed B A) (friendships d) = [q]"
    and dec: "status q = Declined"
  shows "accept B A d =
           transaction
             (\<lambda>t. insertInto B A Accepted
                    (updateTable
                       (\<lambda>x. userId x = A \<and> friendUserId x = B \<and> status x = Requested)
                       Accepted t)) d \<and>
         (\<forall>i < length (friendships d).
            friendships d ! i = q \<longrightarrow>
              i < length (friendships (snd (accept B A d))) \<and>
              friendships (snd (accept B A d)) ! i = q) \<and>
         (\<not> uniqueDirection d \<longrightarrow>
            accept B A d =
              (Inr (),
               d\<lparr>friendships :=
                    map (\<lambda>x. if directed A B x \<and> status x = Requested
                              then x\<lparr>status := Accepted\<rparr> else x) (friendships d) @
                    [\<lparr>id' = nextId d, userId = B, friendUserId = A, status = Accepted\<rparr>],
                 nextId := Suc (nextId d)\<rparr>) \<and>
            filter (directed B A) (friendships (snd (accept B A d))) =
              [q, \<lparr>id' = nextId d, userId = B, friendUserId = A, status = Accepted\<rparr>]) \<and>
         (uniqueDirection d \<longrightarrow> accept B A d = (Inl ConstraintViolation, d))"
proof -
  let ?P = "\<lambda>x. userId x = A \<and> friendUserId x = B \<and> status x = Requested"
  let ?upd = "\<lambda>x. if directed A B x \<and> status x = Requested then x\<lparr>status := Accepted\<rparr> else x"
  let ?new = "\<lparr>id' = nextId d, userId = B, friendUserId = A, status = Accepted\<rparr>"
  let ?t1 = "d\<lparr>friendships := map ?upd (friendships d)\<rparr>"
  let ?d' = "d\<lparr>friendships := map ?upd (friendships d) @ [?new], nextId := Suc (nextId d)\<rparr>"
  have t1: "updateTable ?P Accepted d = ?t1"
    by (simp add: updateTable_def directed_def)
  have q_in: "q \<in> set (friendships d)" and q_dir: "directed B A q"
    using filter_eq_ConsD [OF rev] by auto
  have q_keep: "?upd q = q"
    using dec by simp
  have fBA: "filter (directed B A) (map ?upd (friendships d)) = [q]"
    using q_keep by (simp only: filter_map_status rev list.map)
  have "\<And>x. x \<in> set (map ?upd (friendships d)) \<Longrightarrow>
          \<not> (userId x = B \<and> friendUserId x = A \<and> status x = Requested)"
  proof -
    fix x assume "x \<in> set (map ?upd (friendships d))"
    then have "directed B A x \<Longrightarrow> x \<in> set (filter (directed B A) (map ?upd (friendships d)))"
      by simp
    then have "directed B A x \<Longrightarrow> x = q"
      unfolding fBA by simp
    with dec show "\<not> (userId x = B \<and> friendUserId x = A \<and> status x = Requested)"
      by (auto simp: directed_def)
  qed
  then have fnd: "find (\<lambda>x. userId x = B \<and> friendUserId x = A \<and> status x = Requested)
                    (friendships ?t1) = None"
    by (simp only: find_None_iff friendships_upd) blast
  have body: "accept_body B A d = insertInto B A Accepted ?t1"
    using fnd by (simp only: accept_body_find Let_def t1 option.case)
  have pass: "accept B A d = transaction (accept_body B A) d"
    using canAnswer_pass [OF r_in r_dir req, of "accept_mutation B A"]
    by (simp add: accept_def accept_mutation_def)
  have "q \<in> set (map ?upd (friendships d))"
  proof -
    have "?upd q \<in> set (map ?upd (friendships d))"
      using q_in by (simp only: set_map) (rule imageI)
    then show ?thesis
      by (simp only: q_keep)
  qed
  then have ex: "\<exists>x \<in> set (friendships ?t1). userId x = B \<and> friendUserId x = A"
    using q_dir by (auto simp: directed_def)
  have u: "accept B A d = (Inl ConstraintViolation, d)" if "uniqueDirection d"
  proof -
    have "insertInto B A Accepted ?t1 = (Inl ConstraintViolation, ?t1)"
      using that ex by (simp add: insertInto_def)
    then show ?thesis
      by (simp add: pass body transaction_def)
  qed
  have n: "accept B A d = (Inr (), ?d')" if "\<not> uniqueDirection d"
  proof -
    have "insertInto B A Accepted ?t1 = (Inr (), ?d')"
      using that by (simp add: insertInto_def)
    then show ?thesis
      by (simp add: pass body transaction_def)
  qed
  have "filter (directed B A) (friendships ?d') =
          filter (directed B A) (map ?upd (friendships d)) @ filter (directed B A) [?new]"
    by simp
  also have "\<dots> = [q, ?new]"
    unfolding fBA by (simp add: directed_def)
  finally have f: "filter (directed B A) (friendships ?d') = [q, ?new]" .
  have call: "accept B A d =
                transaction (\<lambda>t. insertInto B A Accepted (updateTable ?P Accepted t)) d"
    by (simp only: pass transaction_def body t1)
  have kept: "i < length (friendships (snd (accept B A d))) \<and>
              friendships (snd (accept B A d)) ! i = q"
    if i: "i < length (friendships d)" and at: "friendships d ! i = q" for i
  proof (cases "uniqueDirection d")
    case True
    with u i at show ?thesis by simp
  next
    case False
    have "(map ?upd (friendships d) @ [?new]) ! i = q"
      using i at dec by (simp add: nth_append)
    with n [OF False] i show ?thesis
      by simp
  qed
  have outcome:
    "(\<not> uniqueDirection d \<longrightarrow>
        accept B A d = (Inr (), ?d') \<and>
        filter (directed B A) (friendships (snd (accept B A d))) = [q, ?new]) \<and>
     (uniqueDirection d \<longrightarrow> accept B A d = (Inl ConstraintViolation, d))"
  proof (cases "uniqueDirection d")
    case True
    with u show ?thesis by simp
  next
    case False
    with n f show ?thesis by simp
  qed
  from call kept outcome show ?thesis
    by blast
qed

theorem accept_declined_reverse_witness:
  "\<lparr>id' = 0, userId = 1, friendUserId = 2, status = Requested\<rparr>
     \<in> set (friendships (sample_pending False)) \<and>
   filter (directed 2 1) (friendships (sample_pending False)) =
     [\<lparr>id' = 1, userId = 2, friendUserId = 1, status = Declined\<rparr>] \<and>
   accept 2 1 (sample_pending False) =
     (Inr (),
      \<lparr>users = [1, 2, 3],
       friendships = [\<lparr>id' = 0, userId = 1, friendUserId = 2, status = Accepted\<rparr>,
                      \<lparr>id' = 1, userId = 2, friendUserId = 1, status = Declined\<rparr>,
                      \<lparr>id' = 2, userId = 3, friendUserId = 1, status = Requested\<rparr>,
                      \<lparr>id' = 3, userId = 2, friendUserId = 1, status = Accepted\<rparr>],
       nextId = 4, uniqueDirection = False\<rparr>) \<and>
   accept 2 1 (sample_pending True) = (Inl ConstraintViolation, sample_pending True)"
proof -
  let ?r = "\<lparr>id' = 0, userId = 1, friendUserId = 2, status = Requested\<rparr>"
  let ?q = "\<lparr>id' = 1, userId = 2, friendUserId = 1, status = Declined\<rparr>"
  have h1: "?r \<in> set (friendships (sample_pending u))" for u
    by (simp add: sample_pending_def)
  have h2: "directed 1 2 ?r"
    by (simp add: directed_def)
  have h3: "status ?r = Requested"
    by simp
  have h4: "filter (directed 2 1) (friendships (sample_pending u)) = [?q]" for u
    by (simp add: sample_pending_def directed_def)
  have h5: "status ?q = Declined"
    by simp
  have u: "\<not> uniqueDirection (sample_pending False)" "uniqueDirection (sample_pending True)"
    by (simp_all add: sample_pending_def)
  from accept_declined_reverse [OF h1 h2 h3 h4 h5, of False, THEN conjunct2, THEN conjunct2]
    accept_declined_reverse [OF h1 h2 h3 h4 h5, of True, THEN conjunct2, THEN conjunct2]
    u h1 [of False] h4 [of False]
  show ?thesis
    by (simp add: sample_pending_def directed_def)
qed

end
